theory Spec2Isabelle
  imports Main
begin

section \<open>The windowed message-statistics estimator (class MessageAnalyzer)\<close>

text \<open>
  The development embeds the class \<open>MessageAnalyzer\<close> in its statistics variant (the
  source file with the fields \<open>newMsgCount\<close>, \<open>newMsgStatistic\<close>, \<open>msgCountInBuffer\<close> and
  \<open>msgStatisticInBuffer\<close>). Conventions of the embedding:
  \<^item> JavaScript numbers that hold counts, statistics and millisecond timestamps are
    \<open>int\<close>; the arithmetic is exact, so the rounding of doubles is not modelled and
    \<open>Math.floor (a / b)\<close> is \<open>a div b\<close> (which rounds towards minus infinity);
  \<open>NaN\<close> is \<open>None\<close> of \<open>int option\<close> where it can occur;
  \<^item> a thrown exception is \<open>Inl\<close> of a result \<open>js_error + 'a\<close>;
  \<^item> \<open>new Date().getTime()\<close> is the parameter \<open>now\<close> of the operation that reads the
    clock (all reads inside one call return the same instant);
  \<^item> the three hooks a subclass overrides are made explicit: \<open>calculateMsgStatistic\<close> is
    the parameter \<open>stat\<close>, and every invocation of a hook is appended to the field
    \<open>calls\<close>;
  \<^item> the host's table of live interval timers is the field \<open>active_timers\<close>
    (handle and period in milliseconds), \<open>next_timer\<close> is the next fresh handle.
\<close>

subsection \<open>JavaScript values of the configuration\<close>

datatype js_error = TypeError | RangeError

text \<open>\<open>JNum\<close> holds an integer-valued number (below \<open>10^21\<close> in magnitude, so that its
  string form is its decimal expansion).\<close>

datatype jsval = JUndefined | JNull | JBool bool | JNum int | JNaN | JStr string

text \<open>Truthiness: \<open>!v\<close> is true exactly for the falsy values.\<close>

fun falsy :: "jsval \<Rightarrow> bool" where
  "falsy JUndefined = True"
| "falsy JNull = True"
| "falsy (JBool b) = (b = False)"
| "falsy (JNum n) = (n = 0)"
| "falsy JNaN = True"
| "falsy (JStr s) = (s = [])"

text \<open>\<open>parseInt\<close> without a radix: leading white space is skipped, then an optional
  sign, then an optional \<open>0x\<close> prefix (radix 16, otherwise 10), then the longest run of
  digits of the radix; no digit at all gives \<open>NaN\<close>. White space is the ASCII white
  space.\<close>

definition is_ws :: "char \<Rightarrow> bool" where
  "is_ws c = ((of_char c :: nat) \<in> {9, 10, 11, 12, 13, 32})"

definition digit_of :: "char \<Rightarrow> nat option" where
  "digit_of c =
     (let n = (of_char c :: nat) in
      if 48 \<le> n \<and> n \<le> 57 then Some (n - 48)
      else if 97 \<le> n \<and> n \<le> 122 then Some (n - 87)
      else if 65 \<le> n \<and> n \<le> 90 then Some (n - 55)
      else None)"

fun parse_digits :: "nat \<Rightarrow> string \<Rightarrow> nat option \<Rightarrow> nat option" where
  "parse_digits r [] acc = acc"
| "parse_digits r (c # cs) acc =
     (case digit_of c of
        None \<Rightarrow> acc
      | Some d \<Rightarrow>
          if d < r
          then parse_digits r cs (Some (r * (case acc of None \<Rightarrow> 0 | Some a \<Rightarrow> a) + d))
          else acc)"

definition parseInt_string :: "string \<Rightarrow> int option" where
  "parseInt_string str =
     (let s = dropWhile is_ws str;
          neg = (case s of [] \<Rightarrow> False | c # cs \<Rightarrow> c = CHR ''-'');
          s1 = (case s of [] \<Rightarrow> s
                | c # cs \<Rightarrow> if c = CHR ''-'' \<or> c = CHR ''+'' then cs else s);
          hex = (case s1 of a # b # cs \<Rightarrow> a = CHR ''0'' \<and> (b = CHR ''x'' \<or> b = CHR ''X'')
                 | _ \<Rightarrow> False);
          s2 = (if hex then drop 2 s1 else s1)
      in map_option (\<lambda>n. if neg then - int n else int n)
           (parse_digits (if hex then 16 else 10) s2 None))"

fun parseInt :: "jsval \<Rightarrow> int option" where
  "parseInt (JNum n) = Some n"
| "parseInt (JStr s) = parseInt_string s"
| "parseInt v = None"

subsection \<open>The circular buffer of the package circular-buffer\<close>

text \<open>
  The buffer is the external package \<open>circular-buffer\<close>, modelled by its interface: the
  items are listed from the head (newest) to the tail (oldest); \<open>enq\<close> inserts at the
  head and drops the tail of a full buffer; \<open>get i\<close> is the item at distance \<open>i\<close> from
  the head and throws out of range; the constructor throws \<open>TypeError\<close> unless the
  capacity is an integer that is at least 1.
\<close>

record cell =
  msgCount :: int
  msgStatistic :: int

record circular_buffer =
  cb_capacity :: int
  cb_items :: "cell list"

definition new_CircularBuffer :: "int option \<Rightarrow> js_error + circular_buffer" where
  "new_CircularBuffer c =
     (case c of
        None \<Rightarrow> Inl TypeError
      | Some n \<Rightarrow> if n < 1 then Inl TypeError else Inr \<lparr>cb_capacity = n, cb_items = []\<rparr>)"

definition cb_size :: "circular_buffer \<Rightarrow> int" where
  "cb_size b = int (length (cb_items b))"

definition cb_get :: "circular_buffer \<Rightarrow> int \<Rightarrow> js_error + cell" where
  "cb_get b i =
     (if i < 0 then Inl TypeError
      else if cb_size b \<le> i then Inl RangeError
      else Inr (cb_items b ! nat i))"

definition cb_enq :: "circular_buffer \<Rightarrow> cell \<Rightarrow> circular_buffer" where
  "cb_enq b v = b\<lparr>cb_items := take (nat (cb_capacity b)) (v # cb_items b)\<rparr>"

subsection \<open>The state of a MessageAnalyzer\<close>

datatype 'm hook_call =
    CalculateMsgStatistic 'm
  | ChangeStatus int int bool
  | SendMsg int int

record config =
  cfg_frequency :: jsval
  cfg_interval :: jsval
  cfg_pauseAtStartup :: bool
  cfg_estimation :: bool
  cfg_ignore :: bool

record 'm analyzer =
  frequency :: jsval
  paused :: bool
  estimationStartup :: bool
  ignoreStartup :: bool
  interval :: int
  bufferSize :: int
  circularBuffer :: circular_buffer
  newMsgCount :: int
  newMsgStatistic :: int
  prevStartup :: bool
  prevTotalMsgCount :: int
  prevMsgStatisticInBuffer :: int
  msgCountInBuffer :: int
  msgStatisticInBuffer :: int
  startTime :: "int option"
  endTime :: "int option"
  timer :: "nat option"
  active_timers :: "(nat \<times> int) list"
  next_timer :: nat
  calls :: "'m hook_call list"

subsection \<open>Timers of the host\<close>

definition clearInterval :: "nat \<Rightarrow> 'm analyzer \<Rightarrow> 'm analyzer" where
  "clearInterval h s = s\<lparr>active_timers := filter (\<lambda>p. fst p \<noteq> h) (active_timers s)\<rparr>"

definition setInterval :: "int \<Rightarrow> 'm analyzer \<Rightarrow> nat \<times> 'm analyzer" where
  "setInterval period s =
     (next_timer s,
      s\<lparr>active_timers := active_timers s @ [(next_timer s, period)],
        next_timer := Suc (next_timer s)\<rparr>)"

subsection \<open>reset and the constructor\<close>

definition reset :: "'m analyzer \<Rightarrow> js_error + 'm analyzer" where
  "reset s =
     (case new_CircularBuffer (Some (bufferSize s)) of
        Inl e \<Rightarrow> Inl e
      | Inr b \<Rightarrow>
          Inr (s\<lparr>circularBuffer := b,
                 newMsgCount := 0,
                 newMsgStatistic := 0,
                 prevStartup := False,
                 prevTotalMsgCount := 0,
                 prevMsgStatisticInBuffer := 0,
                 msgCountInBuffer := 0,
                 msgStatisticInBuffer := 0,
                 startTime := None,
                 endTime := None\<rparr>))"

text \<open>The interval of the constructor: 1 for a falsy \<open>config.interval\<close>, otherwise
  \<open>parseInt\<close> of it (which may be \<open>NaN\<close>).\<close>

definition interval_of :: "config \<Rightarrow> int option" where
  "interval_of cfg =
     (if falsy (cfg_interval cfg) then Some 1 else parseInt (cfg_interval cfg))"

text \<open>The \<open>switch\<close> on \<open>config.frequency\<close> (strict equality with the three strings).\<close>

definition secondsPerUnit :: "jsval \<Rightarrow> int" where
  "secondsPerUnit f =
     (if f = JStr ''sec'' then 1
      else if f = JStr ''min'' then 60
      else if f = JStr ''hour'' then 60 * 60
      else 1)"

definition bufferSize_of :: "config \<Rightarrow> int option" where
  "bufferSize_of cfg = map_option (\<lambda>i. secondsPerUnit (cfg_frequency cfg) * i) (interval_of cfg)"

text \<open>The constructor. With a \<open>NaN\<close> buffer size the call of \<open>reset\<close> throws in
  \<open>new CircularBuffer\<close>; otherwise the fields set before \<open>reset\<close> are as below and
  \<open>reset\<close> assigns the others (placeholders here).\<close>

definition new_MessageAnalyzer :: "config \<Rightarrow> js_error + 'm analyzer" where
  "new_MessageAnalyzer cfg =
     (case (interval_of cfg, bufferSize_of cfg) of
        (Some i, Some b) \<Rightarrow>
          reset \<lparr>frequency = cfg_frequency cfg,
                 paused = (if cfg_pauseAtStartup cfg = True then True else False),
                 estimationStartup = (cfg_estimation cfg \<or> False),
                 ignoreStartup = (cfg_ignore cfg \<or> False),
                 interval = i,
                 bufferSize = b,
                 circularBuffer = \<lparr>cb_capacity = 0, cb_items = []\<rparr>,
                 newMsgCount = 0,
                 newMsgStatistic = 0,
                 prevStartup = False,
                 prevTotalMsgCount = 0,
                 prevMsgStatisticInBuffer = 0,
                 msgCountInBuffer = 0,
                 msgStatisticInBuffer = 0,
                 startTime = None,
                 endTime = None,
                 timer = None,
                 active_timers = [],
                 next_timer = 0,
                 calls = []\<rparr>
      | _ \<Rightarrow> Inl TypeError)"

subsection \<open>The flush: one closed second, the catch-up loop, and the new message\<close>

text \<open>The linear interpolation of the startup period: the values reported for a closed
  second and the startup flag, computed after the new cell has been stored.\<close>

definition reported :: "'m analyzer \<Rightarrow> int \<times> int \<times> bool" where
  "reported s =
     (let b = circularBuffer s in
      if cb_size b < cb_capacity b
      then (if estimationStartup s = True \<and> cb_size b > 0
            then (msgCountInBuffer s * cb_capacity b div cb_size b,
                  msgStatisticInBuffer s * cb_capacity b div cb_size b,
                  True)
            else (msgCountInBuffer s, msgStatisticInBuffer s, True))
      else (msgCountInBuffer s, msgStatisticInBuffer s, False))"

text \<open>The status update of one closed second: \<open>changeStatus\<close> is called, and the two
  remembered values are overwritten, when the comparison of the source holds.\<close>

definition update_status :: "int \<Rightarrow> int \<Rightarrow> bool \<Rightarrow> 'm analyzer \<Rightarrow> 'm analyzer" where
  "update_status c st isStartup s =
     (if prevTotalMsgCount s \<noteq> msgCountInBuffer s
         \<or> prevMsgStatisticInBuffer s \<noteq> msgStatisticInBuffer s
         \<or> prevStartup s \<noteq> isStartup
      then s\<lparr>calls := calls s @ [ChangeStatus c st isStartup],
             prevTotalMsgCount := c,
             prevMsgStatisticInBuffer := st\<rparr>
      else s)"

definition send_output :: "int \<Rightarrow> int \<Rightarrow> bool \<Rightarrow> 'm analyzer \<Rightarrow> 'm analyzer" where
  "send_output c st isStartup s =
     (if ignoreStartup s = False \<or> isStartup = False
      then s\<lparr>calls := calls s @ [SendMsg c st]\<rparr>
      else s)"

text \<open>The cell at the tail that the next \<open>enq\<close> removes, or the zero cell.\<close>

definition originalCellContent :: "'m analyzer \<Rightarrow> js_error + cell" where
  "originalCellContent s =
     (if cb_size (circularBuffer s) \<ge> bufferSize s
      then cb_get (circularBuffer s) (bufferSize s - 1)
      else Inr \<lparr>msgCount = 0, msgStatistic = 0\<rparr>)"

text \<open>The body of the \<open>for\<close> loop of \<open>_analyse\<close>, in two parts. First the running sums
  are updated with the cell that leaves the buffer and the new cell is stored.\<close>

definition store_second :: "cell \<Rightarrow> 'm analyzer \<Rightarrow> 'm analyzer" where
  "store_second orig s =
     (let s1 = s\<lparr>msgCountInBuffer := msgCountInBuffer s + newMsgCount s - msgCount orig,
                   msgStatisticInBuffer :=
                     msgStatisticInBuffer s + newMsgStatistic s - msgStatistic orig\<rparr>
      in s1\<lparr>circularBuffer :=
               cb_enq (circularBuffer s1)
                 \<lparr>msgCount = newMsgCount s1, msgStatistic = newMsgStatistic s1\<rparr>\<rparr>)"

text \<open>Then the values of the closed second are reported and the next second is opened.\<close>

definition report_second :: "'m analyzer \<Rightarrow> 'm analyzer" where
  "report_second s2 =
     (let (c, st, isStartup) = reported s2;
          s3 = update_status c st isStartup s2;
          s4 = send_output c st isStartup s3
      in s4\<lparr>newMsgCount := 0,
             newMsgStatistic := 0,
             startTime := endTime s4,
             prevStartup := isStartup\<rparr>)"

definition analyse_iteration :: "'m analyzer \<Rightarrow> js_error + 'm analyzer" where
  "analyse_iteration s =
     (case originalCellContent s of
        Inl e \<Rightarrow> Inl e
      | Inr orig \<Rightarrow> Inr (report_second (store_second orig s)))"

fun analyse_loop :: "nat \<Rightarrow> 'm analyzer \<Rightarrow> js_error + 'm analyzer" where
  "analyse_loop 0 s = Inr s"
| "analyse_loop (Suc n) s =
     (case analyse_iteration s of Inl e \<Rightarrow> Inl e | Inr s' \<Rightarrow> analyse_loop n s')"

text \<open>The message, if there is one, goes to the next (still open) second.\<close>

definition add_msg :: "('m \<Rightarrow> int) \<Rightarrow> 'm option \<Rightarrow> 'm analyzer \<Rightarrow> 'm analyzer" where
  "add_msg stat msg s =
     (case msg of
        None \<Rightarrow> s
      | Some m \<Rightarrow>
          s\<lparr>newMsgCount := newMsgCount s + 1,
            newMsgStatistic := newMsgStatistic s + stat m,
            calls := calls s @ [CalculateMsgStatistic m]\<rparr>)"

text \<open>\<open>_analyse\<close>: with \<open>d\<close> the milliseconds since \<open>startTime\<close>, the number of whole
  seconds is \<open>d div 1000\<close> and the remainder \<open>d mod 1000\<close> is taken off \<open>endTime\<close>; a
  negative number of seconds runs the loop zero times.\<close>

definition analyse :: "('m \<Rightarrow> int) \<Rightarrow> int \<Rightarrow> 'm option \<Rightarrow> 'm analyzer \<Rightarrow> js_error + 'm analyzer" where
  "analyse stat now msg s =
     (let start = (case startTime s of None \<Rightarrow> now | Some t \<Rightarrow> t);
          seconds = (now - start) div 1000;
          remainder = (now - start) mod 1000;
          s1 = s\<lparr>startTime := Some start, endTime := Some (now - remainder)\<rparr>
      in case analyse_loop (nat seconds) s1 of
           Inl e \<Rightarrow> Inl e
         | Inr s2 \<Rightarrow> Inr (add_msg stat msg s2))"

subsection \<open>process, pause, resume, stop\<close>

definition process :: "('m \<Rightarrow> int) \<Rightarrow> int \<Rightarrow> 'm option \<Rightarrow> 'm analyzer \<Rightarrow> js_error + 'm analyzer" where
  "process stat now msg s =
     (if \<not> paused s
      then (let s1 = (case timer s of None \<Rightarrow> s | Some h \<Rightarrow> clearInterval h s)
            in case analyse stat now msg s1 of
                 Inl e \<Rightarrow> Inl e
               | Inr s2 \<Rightarrow>
                   (let (h, s3) = setInterval 60000 s2 in Inr (s3\<lparr>timer := Some h\<rparr>)))
      else Inr s)"

definition cancel_timer :: "'m analyzer \<Rightarrow> 'm analyzer" where
  "cancel_timer s =
     (case timer s of
        None \<Rightarrow> s
      | Some h \<Rightarrow> (clearInterval h s)\<lparr>timer := None\<rparr>)"

definition stop :: "'m analyzer \<Rightarrow> js_error + 'm analyzer" where
  "stop s = reset (cancel_timer s)"

definition resume :: "('m \<Rightarrow> int) \<Rightarrow> int \<Rightarrow> 'm analyzer \<Rightarrow> js_error + 'm analyzer" where
  "resume stat now s =
     (if paused s
      then process stat now None (s\<lparr>paused := False, startTime := Some now\<rparr>)
      else Inr s)"

definition pause :: "'m analyzer \<Rightarrow> 'm analyzer" where
  "pause s = (if \<not> paused s then cancel_timer (s\<lparr>paused := True\<rparr>) else s)"

text \<open>The callback of the interval timer.\<close>

definition timer_fires :: "('m \<Rightarrow> int) \<Rightarrow> int \<Rightarrow> 'm analyzer \<Rightarrow> js_error + 'm analyzer" where
  "timer_fires stat now s = analyse stat now None s"

subsection \<open>Runs of an estimator\<close>

text \<open>What can happen to an estimator after its construction: a call of \<open>process\<close>
  (with a message or with \<open>null\<close>), the timer callback (only while a timer is live), and
  calls of \<open>pause\<close>, \<open>resume\<close>, \<open>stop\<close> and \<open>reset\<close>. The clock value of each event is
  arbitrary, so a clock that runs backwards is covered.\<close>

datatype 'm event =
    Process int "'m option"
  | TimerFires int
  | Pause
  | Resume int
  | Stop
  | Reset

fun step :: "('m \<Rightarrow> int) \<Rightarrow> 'm event \<Rightarrow> 'm analyzer \<Rightarrow> js_error + 'm analyzer" where
  "step stat (Process now msg) s = process stat now msg s"
| "step stat (TimerFires now) s =
     (if active_timers s = [] then Inr s else timer_fires stat now s)"
| "step stat Pause s = Inr (pause s)"
| "step stat (Resume now) s = resume stat now s"
| "step stat Stop s = stop s"
| "step stat Reset s = reset s"

fun run :: "('m \<Rightarrow> int) \<Rightarrow> 'm event list \<Rightarrow> 'm analyzer \<Rightarrow> js_error + 'm analyzer" where
  "run stat [] s = Inr s"
| "run stat (e # es) s =
     (case step stat e s of Inl err \<Rightarrow> Inl err | Inr s' \<Rightarrow> run stat es s')"

text \<open>The flush without a message, repeated \<open>n\<close> times at the successive one-second
  boundaries after \<open>t\<close>.\<close>

fun flush_each :: "('m \<Rightarrow> int) \<Rightarrow> nat \<Rightarrow> int \<Rightarrow> 'm analyzer \<Rightarrow> js_error + 'm analyzer" where
  "flush_each stat 0 t s = Inr s"
| "flush_each stat (Suc n) t s =
     (case analyse stat (t + 1000) None s of
        Inl e \<Rightarrow> Inl e
      | Inr s' \<Rightarrow> flush_each stat n (t + 1000) s')"

subsection \<open>Predicates on states\<close>

text \<open>The shape every constructed estimator has: the buffer was made with
  \<open>bufferSize\<close>, which is at least 1, and holds at most that many cells.\<close>

definition analyzer_inv :: "'m analyzer \<Rightarrow> bool" where
  "analyzer_inv s =
     (cb_capacity (circularBuffer s) = bufferSize s \<and> 1 \<le> bufferSize s
      \<and> cb_size (circularBuffer s) \<le> bufferSize s)"

definition sums_consistent :: "'m analyzer \<Rightarrow> bool" where
  "sums_consistent s =
     (msgCountInBuffer s = sum_list (map msgCount (cb_items (circularBuffer s)))
      \<and> msgStatisticInBuffer s = sum_list (map msgStatistic (cb_items (circularBuffer s))))"

text \<open>The live timers are exactly the one whose handle the estimator holds.\<close>

definition timers_inv :: "'m analyzer \<Rightarrow> bool" where
  "timers_inv s =
     (case timer s of
        None \<Rightarrow> active_timers s = []
      | Some h \<Rightarrow> active_timers s = [(h, 60000)] \<and> h < next_timer s)"

text \<open>The hook calls that an operation leading from \<open>s\<close> to \<open>s'\<close> has added.\<close>

definition new_calls :: "'m analyzer \<Rightarrow> 'm analyzer \<Rightarrow> 'm hook_call list" where
  "new_calls s s' = drop (length (calls s)) (calls s')"


subsection \<open>The buffer size as the specification words it\<close>

text \<open>The specification's reading of the interval: a value that is absent, not positive
  or not parsable counts as 1.\<close>

definition spec_interval :: "jsval \<Rightarrow> int" where
  "spec_interval v =
     (case parseInt v of None \<Rightarrow> 1 | Some i \<Rightarrow> if i \<le> 0 then 1 else i)"

definition spec_bufferSize :: "config \<Rightarrow> int" where
  "spec_bufferSize cfg = secondsPerUnit (cfg_frequency cfg) * spec_interval (cfg_interval cfg)"

subsection \<open>Example configurations\<close>

definition window3 :: config where
  "window3 =
     \<lparr>cfg_frequency = JStr ''sec'', cfg_interval = JStr ''3'', cfg_pauseAtStartup = False,
      cfg_estimation = True, cfg_ignore = False\<rparr>"

definition window1 :: config where
  "window1 =
     \<lparr>cfg_frequency = JStr ''sec'', cfg_interval = JUndefined, cfg_pauseAtStartup = False,
      cfg_estimation = False, cfg_ignore = False\<rparr>"

definition negative_interval :: config where
  "negative_interval =
     \<lparr>cfg_frequency = JStr ''min'', cfg_interval = JStr ''-5'', cfg_pauseAtStartup = False,
      cfg_estimation = False, cfg_ignore = False\<rparr>"

text \<open>The statistic of the examples: the message is its own payload size.\<close>

definition payload :: "nat \<Rightarrow> int" where
  "payload m = int m"

text \<open>The state of the \<open>window3\<close> estimator after two messages in the first second and
  the timer callback at the end of that second.\<close>

definition warm_state :: "nat analyzer" where
  "warm_state =
     \<lparr>frequency = JStr ''sec'', paused = False, estimationStartup = True,
      ignoreStartup = False, interval = 3, bufferSize = 3,
      circularBuffer = \<lparr>cb_capacity = 3, cb_items = [\<lparr>msgCount = 2, msgStatistic = 9\<rparr>]\<rparr>,
      newMsgCount = 0, newMsgStatistic = 0, prevStartup = True,
      prevTotalMsgCount = 6, prevMsgStatisticInBuffer = 27,
      msgCountInBuffer = 2, msgStatisticInBuffer = 9,
      startTime = Some 1000, endTime = Some 1000, timer = Some 1,
      active_timers = [(1, 60000)], next_timer = 2,
      calls = [CalculateMsgStatistic 4, CalculateMsgStatistic 5,
               ChangeStatus 6 27 True, SendMsg 6 27]\<rparr>"

section \<open>Properties\<close>

subsection \<open>One closed second\<close>



lemma originalCellContent_inv:
  assumes "analyzer_inv s"
  shows "originalCellContent s =
     Inr (if cb_size (circularBuffer s) = bufferSize s then last (cb_items (circularBuffer s))
          else \<lparr>msgCount = 0, msgStatistic = 0\<rparr>)"
proof -
  let ?xs = "cb_items (circularBuffer s)"
  show ?thesis
  proof (cases "cb_size (circularBuffer s) = bufferSize s")
    case True
    with assms have ne: "?xs \<noteq> []" and len: "int (length ?xs) = bufferSize s"
      by (auto simp: analyzer_inv_def cb_size_def)
    have "nat (bufferSize s - 1) = length ?xs - 1" using len by simp
    then have "?xs ! nat (bufferSize s - 1) = last ?xs" using ne by (simp add: last_conv_nth)
    with True assms show ?thesis
      by (simp add: originalCellContent_def cb_get_def analyzer_inv_def)
  next
    case False
    with assms show ?thesis by (simp add: originalCellContent_def analyzer_inv_def)
  qed
qed

lemma update_status_frame [simp]:
  "circularBuffer (update_status c st u s) = circularBuffer s"
  "bufferSize (update_status c st u s) = bufferSize s"
  "msgCountInBuffer (update_status c st u s) = msgCountInBuffer s"
  "msgStatisticInBuffer (update_status c st u s) = msgStatisticInBuffer s"
  "newMsgCount (update_status c st u s) = newMsgCount s"
  "newMsgStatistic (update_status c st u s) = newMsgStatistic s"
  "paused (update_status c st u s) = paused s"
  "estimationStartup (update_status c st u s) = estimationStartup s"
  "ignoreStartup (update_status c st u s) = ignoreStartup s"
  "timer (update_status c st u s) = timer s"
  "active_timers (update_status c st u s) = active_timers s"
  "next_timer (update_status c st u s) = next_timer s"
  "endTime (update_status c st u s) = endTime s"
  by (simp_all add: update_status_def)

lemma send_output_frame [simp]:
  "circularBuffer (send_output c st u s) = circularBuffer s"
  "bufferSize (send_output c st u s) = bufferSize s"
  "msgCountInBuffer (send_output c st u s) = msgCountInBuffer s"
  "msgStatisticInBuffer (send_output c st u s) = msgStatisticInBuffer s"
  "newMsgCount (send_output c st u s) = newMsgCount s"
  "newMsgStatistic (send_output c st u s) = newMsgStatistic s"
  "paused (send_output c st u s) = paused s"
  "estimationStartup (send_output c st u s) = estimationStartup s"
  "ignoreStartup (send_output c st u s) = ignoreStartup s"
  "timer (send_output c st u s) = timer s"
  "active_timers (send_output c st u s) = active_timers s"
  "next_timer (send_output c st u s) = next_timer s"
  "endTime (send_output c st u s) = endTime s"
  "prevTotalMsgCount (send_output c st u s) = prevTotalMsgCount s"
  "prevMsgStatisticInBuffer (send_output c st u s) = prevMsgStatisticInBuffer s"
  "prevStartup (send_output c st u s) = prevStartup s"
  by (simp_all add: send_output_def)

lemma iteration_fields:
  assumes "analyse_iteration s = Inr s'"
  shows "\<exists>orig. originalCellContent s = Inr orig
     \<and> circularBuffer s' =
         cb_enq (circularBuffer s) \<lparr>msgCount = newMsgCount s, msgStatistic = newMsgStatistic s\<rparr>
     \<and> msgCountInBuffer s' = msgCountInBuffer s + newMsgCount s - msgCount orig
     \<and> msgStatisticInBuffer s' = msgStatisticInBuffer s + newMsgStatistic s - msgStatistic orig
     \<and> bufferSize s' = bufferSize s \<and> newMsgCount s' = 0 \<and> newMsgStatistic s' = 0
     \<and> paused s' = paused s \<and> timer s' = timer s \<and> active_timers s' = active_timers s
     \<and> next_timer s' = next_timer s \<and> estimationStartup s' = estimationStartup s
     \<and> ignoreStartup s' = ignoreStartup s \<and> endTime s' = endTime s \<and> startTime s' = endTime s"
  using assms
  by (auto simp: analyse_iteration_def store_second_def report_second_def Let_def
      split: sum.splits prod.splits)

lemma iteration_total: "analyzer_inv s \<Longrightarrow> \<exists>s'. analyse_iteration s = Inr s'"
  by (simp add: analyse_iteration_def originalCellContent_inv)

lemma iteration_inv:
  assumes "analyzer_inv s" "analyse_iteration s = Inr s'"
  shows "analyzer_inv s'"
proof -
  from iteration_fields [OF assms(2)] have
    b: "circularBuffer s' =
         cb_enq (circularBuffer s) \<lparr>msgCount = newMsgCount s, msgStatistic = newMsgStatistic s\<rparr>"
    and sz: "bufferSize s' = bufferSize s" by auto
  with assms(1) show ?thesis
    by (auto simp: analyzer_inv_def cb_enq_def cb_size_def)
qed


lemma loop_total: "analyzer_inv s \<Longrightarrow> \<exists>s'. analyse_loop n s = Inr s'"
proof (induction n arbitrary: s)
  case 0
  then show ?case by simp
next
  case (Suc n)
  from iteration_total [OF Suc.prems] obtain s1 where s1: "analyse_iteration s = Inr s1" ..
  with Suc.prems have "analyzer_inv s1" by (rule iteration_inv)
  from Suc.IH [OF this] s1 show ?case by simp
qed



subsection \<open>The flush and the lifecycle operations keep the shape and the sums\<close>

lemma add_msg_inv [simp]: "analyzer_inv (add_msg stat msg s) = analyzer_inv s"
  by (simp add: add_msg_def analyzer_inv_def split: option.splits)

lemma add_msg_sums [simp]: "sums_consistent (add_msg stat msg s) = sums_consistent s"
  by (simp add: add_msg_def sums_consistent_def split: option.splits)

lemma analyse_total: "analyzer_inv s \<Longrightarrow> \<exists>s'. analyse stat now msg s = Inr s'"
proof -
  assume inv: "analyzer_inv s"
  let ?start = "case startTime s of None \<Rightarrow> now | Some t \<Rightarrow> t"
  let ?s1 = "s\<lparr>startTime := Some ?start, endTime := Some (now - (now - ?start) mod 1000)\<rparr>"
  from inv have "analyzer_inv ?s1" by (simp add: analyzer_inv_def)
  from loop_total [OF this, of "nat ((now - ?start) div 1000)"]
  show ?thesis by (auto simp: analyse_def Let_def)
qed



lemma clearInterval_inv [simp]:
  "analyzer_inv (clearInterval h s) = analyzer_inv s"
  "sums_consistent (clearInterval h s) = sums_consistent s"
  by (simp_all add: clearInterval_def analyzer_inv_def sums_consistent_def)

lemma cancel_timer_inv [simp]:
  "analyzer_inv (cancel_timer s) = analyzer_inv s"
  "sums_consistent (cancel_timer s) = sums_consistent s"
  by (simp_all add: cancel_timer_def clearInterval_def analyzer_inv_def sums_consistent_def
      split: option.splits)

lemma process_total: "analyzer_inv s \<Longrightarrow> \<exists>s'. process stat now msg s = Inr s'"
proof -
  assume inv: "analyzer_inv s"
  let ?s1 = "case timer s of None \<Rightarrow> s | Some h \<Rightarrow> clearInterval h s"
  from inv have "analyzer_inv ?s1" by (simp split: option.splits)
  from analyse_total [OF this, of stat now msg]
  show ?thesis by (auto simp: process_def Let_def setInterval_def)
qed



lemma reset_total: "1 \<le> bufferSize s \<Longrightarrow> \<exists>s'. reset s = Inr s'"
  by (simp add: reset_def new_CircularBuffer_def)

lemma reset_inv: "reset s = Inr s' \<Longrightarrow> analyzer_inv s' \<and> sums_consistent s'"
  by (auto simp: reset_def new_CircularBuffer_def analyzer_inv_def sums_consistent_def
      cb_size_def split: if_splits)

lemma constructor_inv:
  "new_MessageAnalyzer cfg = Inr s \<Longrightarrow> analyzer_inv s \<and> sums_consistent s"
  by (auto simp: new_MessageAnalyzer_def split: option.splits prod.splits dest: reset_inv)

lemma pause_inv [simp]:
  "analyzer_inv (pause s) = analyzer_inv s"
  "sums_consistent (pause s) = sums_consistent s"
  by (simp_all add: pause_def) (simp_all add: analyzer_inv_def sums_consistent_def)




subsection \<open>Construction\<close>


lemma constructor_total:
  assumes "bufferSize_of cfg = Some b" "1 \<le> b"
  shows "\<exists>s. new_MessageAnalyzer cfg = Inr s \<and> bufferSize s = b
     \<and> cb_items (circularBuffer s) = [] \<and> paused s = cfg_pauseAtStartup cfg
     \<and> estimationStartup s = cfg_estimation cfg \<and> ignoreStartup s = cfg_ignore cfg
     \<and> timer s = None \<and> active_timers s = [] \<and> calls s = []"
proof -
  from assms(1) obtain i where "interval_of cfg = Some i"
    by (auto simp: bufferSize_of_def)
  with assms show ?thesis
    by (simp add: new_MessageAnalyzer_def reset_def new_CircularBuffer_def)
qed

subsection \<open>Running sums\<close>



subsection \<open>Catching up after a delay\<close>

lemma originalCellContent_retime:
  "originalCellContent (s\<lparr>startTime := a, endTime := e\<rparr>) = originalCellContent s"
  by (simp add: originalCellContent_def)

lemma store_second_retime:
  "store_second orig (s\<lparr>startTime := a, endTime := e\<rparr>) =
     (store_second orig s)\<lparr>startTime := a, endTime := e\<rparr>"
  by (simp add: store_second_def)

lemma reported_retime: "reported (s\<lparr>startTime := a, endTime := e\<rparr>) = reported s"
  by (simp add: reported_def Let_def)

lemma update_status_retime:
  "update_status c st u (s\<lparr>startTime := a, endTime := e\<rparr>) =
     (update_status c st u s)\<lparr>startTime := a, endTime := e\<rparr>"
  by (simp add: update_status_def)

lemma send_output_retime:
  "send_output c st u (s\<lparr>startTime := a, endTime := e\<rparr>) =
     (send_output c st u s)\<lparr>startTime := a, endTime := e\<rparr>"
  by (simp add: send_output_def)

lemma report_second_retime:
  "report_second (s\<lparr>startTime := a, endTime := e\<rparr>) =
     (report_second s)\<lparr>startTime := e, endTime := e\<rparr>"
  by (simp add: report_second_def reported_retime update_status_retime send_output_retime
      split: prod.splits)

lemma iteration_retime:
  "analyse_iteration (s\<lparr>startTime := a, endTime := e\<rparr>) =
     map_sum id (\<lambda>u. u\<lparr>startTime := e, endTime := e\<rparr>) (analyse_iteration s)"
  by (simp add: analyse_iteration_def originalCellContent_retime store_second_retime
      report_second_retime split: sum.splits)

lemma loop_retime:
  "analyse_loop (Suc n) (s\<lparr>startTime := a, endTime := e\<rparr>) =
     map_sum id (\<lambda>u. u\<lparr>startTime := e, endTime := e\<rparr>) (analyse_loop (Suc n) s)"
proof (induction n arbitrary: s a)
  case 0
  show ?case by (cases "analyse_iteration s") (simp_all add: iteration_retime)
next
  case (Suc n)
  show ?case
  proof (cases "analyse_iteration s")
    case (Inl err)
    then show ?thesis by (simp add: iteration_retime)
  next
    case (Inr u)
    have "analyse_loop (Suc (Suc n)) (s\<lparr>startTime := a, endTime := e\<rparr>) =
        analyse_loop (Suc n) (u\<lparr>startTime := e, endTime := e\<rparr>)"
      using Inr by (simp add: iteration_retime)
    also have "\<dots> = map_sum id (\<lambda>u. u\<lparr>startTime := e, endTime := e\<rparr>) (analyse_loop (Suc n) u)"
      by (rule Suc.IH)
    also have "analyse_loop (Suc n) u = analyse_loop (Suc (Suc n)) s"
      using Inr by simp
    finally show ?thesis .
  qed
qed

lemma whole_seconds:
  fixes k r :: int
  assumes "0 \<le> r" "r < 1000"
  shows "(1000 * k + r) div 1000 = k" "(1000 * k + r) mod 1000 = r"
  using assms by simp_all

lemma analyse_no_msg:
  "startTime s = Some t \<Longrightarrow>
   analyse stat now None s =
     analyse_loop (nat ((now - t) div 1000))
       (s\<lparr>startTime := Some t, endTime := Some (now - (now - t) mod 1000)\<rparr>)"
  by (simp add: analyse_def Let_def add_msg_def split: sum.splits)

lemma flush_late:
  assumes "startTime s = Some t" "0 \<le> r" "r < 1000"
  shows "analyse stat (t + 1000 * int (Suc n) + r) None s =
     map_sum id (\<lambda>u. u\<lparr>startTime := Some (t + 1000 * int (Suc n)),
                          endTime := Some (t + 1000 * int (Suc n))\<rparr>) (analyse_loop (Suc n) s)"
proof -
  let ?now = "t + 1000 * int (Suc n) + r"
  have diff: "?now - t = 1000 * int (Suc n) + r" by simp
  have d: "(?now - t) div 1000 = int (Suc n)" "(?now - t) mod 1000 = r"
    unfolding diff using assms(2,3) by (rule whole_seconds)+
  have e: "?now - r = t + 1000 * int (Suc n)" by simp
  have n: "nat (int (Suc n)) = Suc n" by (rule nat_int)
  show ?thesis
    unfolding analyse_no_msg [OF assms(1)] d e n by (rule loop_retime)
qed

lemma flush_on_time:
  assumes "startTime s = Some t"
  shows "analyse stat (t + 1000) None s =
     map_sum id (\<lambda>u. u\<lparr>startTime := Some (t + 1000), endTime := Some (t + 1000)\<rparr>)
       (analyse_iteration s)"
proof -
  have "analyse_loop (Suc 0) s = analyse_iteration s"
    by (cases "analyse_iteration s") simp_all
  with flush_late [OF assms, of 0 stat 0] show ?thesis by simp
qed

lemma flush_each_loop:
  "startTime s = Some t \<Longrightarrow>
   flush_each stat (Suc n) t s =
     map_sum id (\<lambda>u. u\<lparr>startTime := Some (t + 1000 * int (Suc n)),
                          endTime := Some (t + 1000 * int (Suc n))\<rparr>) (analyse_loop (Suc n) s)"
proof (induction n arbitrary: s t)
  case 0
  show ?case
    unfolding flush_each.simps flush_on_time [OF 0]
    by (cases "analyse_iteration s") simp_all
next
  case (Suc n)
  note first = flush_on_time [OF Suc.prems, of stat]
  show ?case
  proof (cases "analyse_iteration s")
    case (Inl err)
    with first show ?thesis by simp
  next
    case (Inr u)
    let ?u = "u\<lparr>startTime := Some (t + 1000), endTime := Some (t + 1000)\<rparr>"
    have st: "startTime ?u = Some (t + 1000)" by simp
    have t': "t + 1000 + 1000 * int (Suc n) = t + 1000 * int (Suc (Suc n))" by simp
    have "flush_each stat (Suc (Suc n)) t s = flush_each stat (Suc n) (t + 1000) ?u"
      using first Inr by simp
    also have "\<dots> = map_sum id (\<lambda>v. v\<lparr>startTime := Some (t + 1000 * int (Suc (Suc n))),
                          endTime := Some (t + 1000 * int (Suc (Suc n)))\<rparr>) (analyse_loop (Suc n) ?u)"
      unfolding Suc.IH [OF st] t' ..
    also have "analyse_loop (Suc n) ?u =
        map_sum id (\<lambda>v. v\<lparr>startTime := Some (t + 1000), endTime := Some (t + 1000)\<rparr>)
          (analyse_loop (Suc n) u)"
      by (rule loop_retime)
    also have "analyse_loop (Suc n) u = analyse_loop (Suc (Suc n)) s"
      using Inr by simp
    finally show ?thesis
      by (cases "analyse_loop (Suc (Suc n)) s") simp_all
  qed
qed

lemma take_append_take: "take k (ys @ take k zs) = take k (ys @ zs)"
  by (simp add: min_def)

lemma loop_zero_cells:
  assumes "analyse_loop n s = Inr s'" "newMsgCount s = 0" "newMsgStatistic s = 0"
    "analyzer_inv s"
  shows "cb_items (circularBuffer s') =
     take (nat (bufferSize s))
       (replicate n \<lparr>msgCount = 0, msgStatistic = 0\<rparr> @ cb_items (circularBuffer s))"
  using assms
proof (induction n arbitrary: s)
  case 0
  then have "int (length (cb_items (circularBuffer s))) \<le> bufferSize s"
    by (simp add: analyzer_inv_def cb_size_def)
  then have "length (cb_items (circularBuffer s)) \<le> nat (bufferSize s)" by linarith
  with 0 show ?case by simp
next
  case (Suc n)
  from Suc.prems(1) obtain u where u: "analyse_iteration s = Inr u" and l: "analyse_loop n u = Inr s'"
    by (auto split: sum.splits)
  from iteration_fields [OF u] Suc.prems(2,3) have
    b: "circularBuffer u = cb_enq (circularBuffer s) \<lparr>msgCount = 0, msgStatistic = 0\<rparr>"
    and z: "newMsgCount u = 0" "newMsgStatistic u = 0" and sz: "bufferSize u = bufferSize s"
    by auto
  from Suc.prems(4) have cap: "cb_capacity (circularBuffer s) = bufferSize s"
    by (simp add: analyzer_inv_def)
  have items_u: "cb_items (circularBuffer u) =
      take (nat (bufferSize s)) (\<lparr>msgCount = 0, msgStatistic = 0\<rparr> # cb_items (circularBuffer s))"
    by (simp add: b cb_enq_def cap)
  have "cb_items (circularBuffer s') =
      take (nat (bufferSize s))
        (replicate n \<lparr>msgCount = 0, msgStatistic = 0\<rparr> @ cb_items (circularBuffer u))"
    using Suc.IH [OF l z iteration_inv [OF Suc.prems(4) u]] unfolding sz .
  also have "\<dots> = take (nat (bufferSize s))
        (replicate n \<lparr>msgCount = 0, msgStatistic = 0\<rparr> @
           \<lparr>msgCount = 0, msgStatistic = 0\<rparr> # cb_items (circularBuffer s))"
    unfolding items_u by (rule take_append_take)
  also have "replicate n \<lparr>msgCount = 0, msgStatistic = 0\<rparr> @
           \<lparr>msgCount = 0, msgStatistic = 0\<rparr> # cb_items (circularBuffer s) =
      replicate (Suc n) \<lparr>msgCount = 0, msgStatistic = 0\<rparr> @ cb_items (circularBuffer s)"
    by (simp add: replicate_app_Cons_same)
  finally show ?case .
qed

text \<open>
  Claim C2. From any state with a start time \<open>t\<close> and an empty pending second, one
  flush without a message that comes 5 seconds late (at \<open>t + 5000\<close> milliseconds, or up to
  a second later) stores exactly 5 new cells \<open>{0, 0}\<close>, and ends in the same state as five
  flushes without a message, one at each of the five one-second boundaries after \<open>t\<close>.
\<close>

theorem catch_up_equivalence:
  assumes "startTime s = Some t" "newMsgCount s = 0" "newMsgStatistic s = 0"
    "analyzer_inv s" "0 \<le> r" "r < 1000"
  shows "analyse stat (t + 5000 + r) None s = flush_each stat 5 t s
     \<and> (\<exists>s'. analyse stat (t + 5000 + r) None s = Inr s'
          \<and> cb_items (circularBuffer s') =
              take (nat (bufferSize s))
                (replicate 5 \<lparr>msgCount = 0, msgStatistic = 0\<rparr> @ cb_items (circularBuffer s)))"
proof -
  let ?T = "\<lambda>u::'a analyzer. u\<lparr>startTime := Some (t + 5000), endTime := Some (t + 5000)\<rparr>"
  have five: "(5::nat) = Suc 4" by simp
  have ms: "1000 * int (Suc 4) = 5000" by simp
  have a: "analyse stat (t + 5000 + r) None s = map_sum id ?T (analyse_loop (Suc 4) s)"
    using flush_late [OF assms(1,5,6), of stat 4] unfolding ms .
  have b: "flush_each stat 5 t s = map_sum id ?T (analyse_loop (Suc 4) s)"
    unfolding five using flush_each_loop [OF assms(1), of stat 4] unfolding ms .
  from loop_total [OF assms(4), of "Suc 4"] obtain s1 where s1: "analyse_loop (Suc 4) s = Inr s1" ..
  from loop_zero_cells [OF s1 assms(2,3,4)]
  have "cb_items (circularBuffer (?T s1)) =
      take (nat (bufferSize s))
        (replicate 5 \<lparr>msgCount = 0, msgStatistic = 0\<rparr> @ cb_items (circularBuffer s))"
    unfolding five by simp
  moreover have "analyse stat (t + 5000 + r) None s = Inr (?T s1)"
    unfolding a s1 by simp
  moreover have "analyse stat (t + 5000 + r) None s = flush_each stat 5 t s"
    unfolding a b ..
  ultimately show ?thesis by (intro conjI exI)
qed

lemma warm_state_inv: "analyzer_inv warm_state"
  by (simp add: analyzer_inv_def warm_state_def cb_size_def)

theorem catch_up_equivalence_witness:
  "startTime warm_state = Some 1000 \<and> newMsgCount warm_state = 0
   \<and> newMsgStatistic warm_state = 0 \<and> analyzer_inv warm_state
   \<and> analyse payload 6250 None warm_state = flush_each payload 5 1000 warm_state
   \<and> (\<exists>s'. analyse payload 6250 None warm_state = Inr s'
         \<and> cb_items (circularBuffer s') =
             [\<lparr>msgCount = 0, msgStatistic = 0\<rparr>, \<lparr>msgCount = 0, msgStatistic = 0\<rparr>,
              \<lparr>msgCount = 0, msgStatistic = 0\<rparr>])"
proof -
  have h: "startTime warm_state = Some 1000" "newMsgCount warm_state = 0"
    "newMsgStatistic warm_state = 0"
    by (simp_all add: warm_state_def)
  have b: "bufferSize warm_state = 3" "cb_items (circularBuffer warm_state) = [\<lparr>msgCount = 2, msgStatistic = 9\<rparr>]"
    by (simp_all add: warm_state_def)
  have t: "(1000::int) + 5000 + 250 = 6250" by simp
  have l: "take (nat 3) (replicate 5 \<lparr>msgCount = 0, msgStatistic = 0\<rparr> @
        [\<lparr>msgCount = 2, msgStatistic = 9\<rparr>]) =
      [\<lparr>msgCount = 0, msgStatistic = 0\<rparr>, \<lparr>msgCount = 0, msgStatistic = 0\<rparr>,
       \<lparr>msgCount = 0, msgStatistic = 0\<rparr>]"
    by (simp add: numeral_eq_Suc)
  have r: "(0::int) \<le> 250" "(250::int) < 1000" by simp_all
  note inst = catch_up_equivalence [OF h warm_state_inv r, of payload, unfolded b t l]
  show ?thesis using h warm_state_inv inst by blast
qed

lemma warm_state_reached:
  "\<exists>s0. new_MessageAnalyzer window3 = Inr s0
     \<and> run payload [Process 0 (Some 4), Process 500 (Some 5), TimerFires 1000] s0 = Inr warm_state"
  by (simp add: new_MessageAnalyzer_def bufferSize_of_def interval_of_def window3_def
      parseInt_string_def is_ws_def digit_of_def secondsPerUnit_def reset_def
      new_CircularBuffer_def process_def analyse_def Let_def add_msg_def setInterval_def
      clearInterval_def timer_fires_def analyse_iteration_def originalCellContent_def
      store_second_def report_second_def reported_def update_status_def send_output_def
      cb_size_def cb_enq_def cb_get_def payload_def warm_state_def)

subsection \<open>What a closed second reports\<close>

lemma store_second_frame [simp]:
  "calls (store_second orig s) = calls s"
  "estimationStartup (store_second orig s) = estimationStartup s"
  "ignoreStartup (store_second orig s) = ignoreStartup s"
  "prevTotalMsgCount (store_second orig s) = prevTotalMsgCount s"
  "prevMsgStatisticInBuffer (store_second orig s) = prevMsgStatisticInBuffer s"
  "prevStartup (store_second orig s) = prevStartup s"
  by (simp_all add: store_second_def)

lemma report_second_frame [simp]:
  "circularBuffer (report_second s) = circularBuffer s"
  "msgCountInBuffer (report_second s) = msgCountInBuffer s"
  "msgStatisticInBuffer (report_second s) = msgStatisticInBuffer s"
  by (simp_all add: report_second_def split: prod.splits)

lemma report_second_calls:
  assumes "reported s = (c, st, u)"
  shows "calls (report_second s) =
     calls s
     @ (if prevTotalMsgCount s \<noteq> msgCountInBuffer s
           \<or> prevMsgStatisticInBuffer s \<noteq> msgStatisticInBuffer s
           \<or> prevStartup s \<noteq> u
        then [ChangeStatus c st u] else [])
     @ (if ignoreStartup s = False \<or> u = False then [SendMsg c st] else [])"
  using assms by (simp add: report_second_def update_status_def send_output_def)

lemma report_second_prev:
  assumes "reported s = (c, st, u)"
  shows "prevStartup (report_second s) = u"
    and "prevTotalMsgCount (report_second s) =
      (if prevTotalMsgCount s \<noteq> msgCountInBuffer s
           \<or> prevMsgStatisticInBuffer s \<noteq> msgStatisticInBuffer s
           \<or> prevStartup s \<noteq> u
       then c else prevTotalMsgCount s)"
    and "prevMsgStatisticInBuffer (report_second s) =
      (if prevTotalMsgCount s \<noteq> msgCountInBuffer s
           \<or> prevMsgStatisticInBuffer s \<noteq> msgStatisticInBuffer s
           \<or> prevStartup s \<noteq> u
       then st else prevMsgStatisticInBuffer s)"
  using assms by (simp_all add: report_second_def update_status_def send_output_def)

lemma reported_cases:
  "reported s =
     (if cb_size (circularBuffer s) < cb_capacity (circularBuffer s)
         \<and> estimationStartup s \<and> 0 < cb_size (circularBuffer s)
      then msgCountInBuffer s * cb_capacity (circularBuffer s) div cb_size (circularBuffer s)
      else msgCountInBuffer s,
      if cb_size (circularBuffer s) < cb_capacity (circularBuffer s)
         \<and> estimationStartup s \<and> 0 < cb_size (circularBuffer s)
      then msgStatisticInBuffer s * cb_capacity (circularBuffer s) div cb_size (circularBuffer s)
      else msgStatisticInBuffer s,
      cb_size (circularBuffer s) < cb_capacity (circularBuffer s))"
  by (simp add: reported_def Let_def)



subsection \<open>stop, reset, pause and resume\<close>

lemma cancel_timer_frame [simp]:
  "bufferSize (cancel_timer s) = bufferSize s"
  "paused (cancel_timer s) = paused s"
  "timer (cancel_timer s) = None"
  by (simp_all add: cancel_timer_def clearInterval_def split: option.splits)

lemma cancel_timer_removes:
  "timer s = Some h \<Longrightarrow> (h, d) \<notin> set (active_timers (cancel_timer s))"
  by (simp add: cancel_timer_def clearInterval_def)

lemma reset_fields:
  assumes "reset s = Inr s'"
  shows "circularBuffer s' = \<lparr>cb_capacity = bufferSize s, cb_items = []\<rparr>"
    and "newMsgCount s' = 0" "newMsgStatistic s' = 0"
    and "prevStartup s' = False" "prevTotalMsgCount s' = 0" "prevMsgStatisticInBuffer s' = 0"
    and "msgCountInBuffer s' = 0" "msgStatisticInBuffer s' = 0"
    and "startTime s' = None" "endTime s' = None"
    and "paused s' = paused s" "timer s' = timer s" "active_timers s' = active_timers s"
    and "bufferSize s' = bufferSize s" "next_timer s' = next_timer s" "calls s' = calls s"
  using assms
  by (auto simp: reset_def new_CircularBuffer_def split: if_splits)

text \<open>
  Claim C7. In every state of a constructed estimator (\<open>bufferSize\<close> at least 1), running
  or paused, \<open>stop\<close> cancels the armed timer, if there is one, and then runs \<open>reset\<close>
  without any condition: afterwards no timer is held, the cancelled timer is no longer
  live, the circular buffer is empty, the running sums and the counters of the pending
  second are zero, and \<open>startTime\<close> and \<open>endTime\<close> are \<open>null\<close>.
\<close>

theorem stop_reinitializes:
  assumes "1 \<le> bufferSize s"
  shows "\<exists>s'. stop s = Inr s' \<and> reset (cancel_timer s) = Inr s'
     \<and> timer s' = None
     \<and> (\<forall>h d. timer s = Some h \<longrightarrow> (h, d) \<notin> set (active_timers s'))
     \<and> circularBuffer s' = \<lparr>cb_capacity = bufferSize s, cb_items = []\<rparr>
     \<and> msgCountInBuffer s' = 0 \<and> msgStatisticInBuffer s' = 0
     \<and> newMsgCount s' = 0 \<and> newMsgStatistic s' = 0
     \<and> startTime s' = None \<and> endTime s' = None"
proof -
  from assms have "1 \<le> bufferSize (cancel_timer s)" by simp
  from reset_total [OF this] obtain s' where r: "reset (cancel_timer s) = Inr s'" ..
  note f = reset_fields [OF r]
  have "\<forall>h d. timer s = Some h \<longrightarrow> (h, d) \<notin> set (active_timers s')"
    unfolding f by (simp add: cancel_timer_removes)
  with r f show ?thesis by (simp add: stop_def)
qed

theorem stop_reinitializes_witness:
  "1 \<le> bufferSize warm_state \<and> timer warm_state = Some 1
   \<and> cb_items (circularBuffer warm_state) \<noteq> []
   \<and> (\<exists>s'. stop warm_state = Inr s' \<and> timer s' = None \<and> active_timers s' = []
         \<and> circularBuffer s' = \<lparr>cb_capacity = 3, cb_items = []\<rparr>
         \<and> msgCountInBuffer s' = 0 \<and> msgStatisticInBuffer s' = 0
         \<and> newMsgCount s' = 0 \<and> newMsgStatistic s' = 0
         \<and> startTime s' = None \<and> endTime s' = None)"
proof -
  have h: "1 \<le> bufferSize warm_state" by (simp add: warm_state_def)
  have t: "timer warm_state = Some 1" "cb_items (circularBuffer warm_state) \<noteq> []"
    "bufferSize warm_state = 3"
    by (simp_all add: warm_state_def)
  have a: "active_timers (cancel_timer warm_state) = []"
    by (simp add: cancel_timer_def clearInterval_def warm_state_def)
  from stop_reinitializes [OF h] obtain s' where s': "stop warm_state = Inr s'"
    "reset (cancel_timer warm_state) = Inr s'" "timer s' = None"
    "circularBuffer s' = \<lparr>cb_capacity = bufferSize warm_state, cb_items = []\<rparr>"
    "msgCountInBuffer s' = 0" "msgStatisticInBuffer s' = 0"
    "newMsgCount s' = 0" "newMsgStatistic s' = 0" "startTime s' = None" "endTime s' = None"
    by blast
  from reset_fields(13) [OF s'(2)] a have "active_timers s' = []" by simp
  with h t s' show ?thesis by simp
qed

lemma loop_paused: "analyse_loop n s = Inr s' \<Longrightarrow> paused s' = paused s"
proof (induction n arbitrary: s)
  case 0
  then show ?case by simp
next
  case (Suc n)
  from Suc.prems obtain u where u: "analyse_iteration s = Inr u" and l: "analyse_loop n u = Inr s'"
    by (auto split: sum.splits)
  from iteration_fields [OF u] have "paused u = paused s" by auto
  with Suc.IH [OF l] show ?case by simp
qed

lemma analyse_paused: "analyse stat now msg s = Inr s' \<Longrightarrow> paused s' = paused s"
  by (auto simp: analyse_def Let_def add_msg_def split: sum.splits option.splits
      dest!: loop_paused)

lemma process_paused: "process stat now msg s = Inr s' \<Longrightarrow> paused s' = paused s"
  by (auto simp: process_def Let_def setInterval_def clearInterval_def
      split: sum.splits option.splits if_splits dest!: analyse_paused)

text \<open>
  Claim C9. In every state, \<open>pause\<close> called twice in a row gives the state that one call
  gives, and so does \<open>resume\<close>: when the first \<open>resume\<close> returns, the second one (at any
  later clock value) changes nothing, because the paused flag is already false. The first
  \<open>resume\<close> does return in every state of a constructed estimator.
\<close>

theorem pause_resume_idempotent:
  "pause (pause s) = pause s
   \<and> (\<forall>s'. resume stat t1 s = Inr s' \<longrightarrow> resume stat t2 s' = Inr s')
   \<and> (analyzer_inv s \<longrightarrow> (\<exists>s'. resume stat t1 s = Inr s'))"
proof (intro conjI allI impI)
  show "pause (pause s) = pause s" by (simp add: pause_def)
next
  fix s' assume r: "resume stat t1 s = Inr s'"
  show "resume stat t2 s' = Inr s'"
  proof (cases "paused s")
    case False
    with r show ?thesis by (simp add: resume_def)
  next
    case True
    with r have "process stat t1 None (s\<lparr>paused := False, startTime := Some t1\<rparr>) = Inr s'"
      by (simp add: resume_def)
    from process_paused [OF this] show ?thesis by (simp add: resume_def)
  qed
next
  assume inv: "analyzer_inv s"
  then have "analyzer_inv (s\<lparr>paused := False, startTime := Some t1\<rparr>)"
    by (simp add: analyzer_inv_def)
  from process_total [OF this, of stat t1 None]
  show "\<exists>s'. resume stat t1 s = Inr s'" by (simp add: resume_def)
qed

theorem pause_resume_idempotent_witness:
  "analyzer_inv (pause warm_state) \<and> paused (pause warm_state)
   \<and> pause (pause warm_state) = pause warm_state
   \<and> (\<exists>s'. resume payload 5000 (pause warm_state) = Inr s' \<and> \<not> paused s'
         \<and> resume payload 9000 s' = Inr s')"
proof -
  have h: "analyzer_inv (pause warm_state)" using warm_state_inv by simp
  have p: "paused (pause warm_state)" by (simp add: pause_def warm_state_def)
  from pause_resume_idempotent [of "pause warm_state" payload 5000 9000] h
  obtain s' where s': "resume payload 5000 (pause warm_state) = Inr s'"
    "resume payload 9000 s' = Inr s'"
    by blast
  from s'(1) p have "\<not> paused s'"
    by (auto simp: resume_def dest: process_paused)
  moreover have "pause (pause warm_state) = pause warm_state" by (simp add: pause_def)
  ultimately show ?thesis using h p s' by blast
qed

text \<open>
  Claim C10. \<open>reset\<close> never changes the paused flag: whenever \<open>reset\<close> returns, \<open>paused\<close>
  has the value it had before, and the same holds for \<open>stop\<close>, which calls \<open>reset\<close>; so an
  estimator that is reset while paused stays paused. \<open>reset\<close> returns in every state whose
  \<open>bufferSize\<close> is at least 1.
\<close>

theorem reset_keeps_paused:
  "(\<forall>s'. reset s = Inr s' \<longrightarrow> paused s' = paused s)
   \<and> (\<forall>s'. stop s = Inr s' \<longrightarrow> paused s' = paused s)
   \<and> (1 \<le> bufferSize s \<longrightarrow> (\<exists>s'. reset s = Inr s'))"
  by (auto simp: stop_def reset_total dest: reset_fields(11))

theorem reset_keeps_paused_witness:
  "1 \<le> bufferSize (pause warm_state) \<and> paused (pause warm_state)
   \<and> (\<exists>s'. reset (pause warm_state) = Inr s' \<and> paused s')"
proof -
  have h: "1 \<le> bufferSize (pause warm_state)" "paused (pause warm_state)"
    by (simp_all add: pause_def warm_state_def)
  from reset_keeps_paused [of "pause warm_state"] h show ?thesis by auto
qed

subsection \<open>The buffer size of a configuration\<close>

lemma secondsPerUnit_pos: "1 \<le> secondsPerUnit f"
  by (simp add: secondsPerUnit_def)

lemma falsy_spec_interval: "falsy v \<Longrightarrow> spec_interval v = 1"
  by (cases v) (simp_all add: spec_interval_def parseInt_string_def)

lemma constructor_bufferSize:
  "new_MessageAnalyzer cfg = Inr s \<Longrightarrow> bufferSize_of cfg = Some (bufferSize s)"
  by (auto simp: new_MessageAnalyzer_def split: option.splits dest: reset_fields(14))

text \<open>
  Claim C8, as stated, fails: the interval \<open>"-5"\<close> is not replaced by 1. With the
  frequency \<open>min\<close> the computed buffer size is \<open>60 * (-5)\<close>, where the claim gives
  \<open>60 * 1\<close>, and the constructor throws in \<open>new CircularBuffer\<close>.
\<close>

theorem interval_fallback_counterexample:
  "bufferSize_of negative_interval = Some (- 300)
   \<and> spec_bufferSize negative_interval = 60
   \<and> bufferSize_of negative_interval \<noteq> Some (spec_bufferSize negative_interval)
   \<and> (new_MessageAnalyzer negative_interval :: js_error + nat analyzer) = Inl TypeError"
  by (simp add: bufferSize_of_def interval_of_def negative_interval_def spec_bufferSize_def
      spec_interval_def parseInt_string_def is_ws_def digit_of_def secondsPerUnit_def
      new_MessageAnalyzer_def reset_def new_CircularBuffer_def)

text \<open>
  Claim C8, amended. The frequency maps to the seconds per unit by \<open>sec\<close> to 1, \<open>min\<close> to
  60, \<open>hour\<close> to 3600 and anything else to 1. A falsy \<open>config.interval\<close> (absent, \<open>null\<close>,
  \<open>0\<close>, \<open>NaN\<close>, the empty string) counts as 1; any other value is taken as
  \<open>parseInt (config.interval)\<close> with no fallback. So the computed buffer size is the
  seconds per unit times the interval as the specification reads it whenever the interval
  is falsy or parses to a positive integer, and then the constructor succeeds with that
  buffer size; every constructed estimator has the computed buffer size, which is at
  least 1.
\<close>

theorem buffer_size_of_configuration:
  "secondsPerUnit (JStr ''sec'') = 1 \<and> secondsPerUnit (JStr ''min'') = 60
   \<and> secondsPerUnit (JStr ''hour'') = 3600
   \<and> (f \<notin> {JStr ''sec'', JStr ''min'', JStr ''hour''} \<longrightarrow> secondsPerUnit f = 1)
   \<and> (falsy (cfg_interval cfg) \<longrightarrow>
        bufferSize_of cfg = Some (secondsPerUnit (cfg_frequency cfg) * 1))
   \<and> (\<not> falsy (cfg_interval cfg) \<longrightarrow>
        bufferSize_of cfg =
          map_option (\<lambda>i. secondsPerUnit (cfg_frequency cfg) * i) (parseInt (cfg_interval cfg)))
   \<and> (falsy (cfg_interval cfg) \<or> (\<exists>i. parseInt (cfg_interval cfg) = Some i \<and> 0 < i) \<longrightarrow>
        bufferSize_of cfg = Some (spec_bufferSize cfg)
        \<and> (\<exists>s :: 'm analyzer. new_MessageAnalyzer cfg = Inr s \<and> bufferSize s = spec_bufferSize cfg))
   \<and> (\<forall>s :: 'm analyzer. new_MessageAnalyzer cfg = Inr s \<longrightarrow>
        bufferSize_of cfg = Some (bufferSize s) \<and> 1 \<le> bufferSize s)"
proof (intro conjI impI allI)
  assume h: "falsy (cfg_interval cfg) \<or> (\<exists>i. parseInt (cfg_interval cfg) = Some i \<and> 0 < i)"
  show b: "bufferSize_of cfg = Some (spec_bufferSize cfg)"
  proof (cases "falsy (cfg_interval cfg)")
    case True
    then show ?thesis
      by (simp add: bufferSize_of_def interval_of_def spec_bufferSize_def falsy_spec_interval)
  next
    case False
    with h obtain i where "parseInt (cfg_interval cfg) = Some i" "0 < i" by blast
    with False show ?thesis
      by (simp add: bufferSize_of_def interval_of_def spec_bufferSize_def spec_interval_def)
  qed
  have "1 \<le> spec_interval (cfg_interval cfg)"
    by (simp add: spec_interval_def split: option.splits)
  with secondsPerUnit_pos [of "cfg_frequency cfg"] have "1 \<le> spec_bufferSize cfg"
    unfolding spec_bufferSize_def by (metis mult_mono mult_1 zero_le_one order.trans)
  from constructor_total [OF b this]
  show "\<exists>s :: 'm analyzer. new_MessageAnalyzer cfg = Inr s \<and> bufferSize s = spec_bufferSize cfg"
    by blast
next
  fix s :: "'m analyzer" assume c: "new_MessageAnalyzer cfg = Inr s"
  then show "bufferSize_of cfg = Some (bufferSize s)" by (rule constructor_bufferSize)
  from constructor_inv [OF c] show "1 \<le> bufferSize s" by (simp add: analyzer_inv_def)
qed (simp_all add: secondsPerUnit_def bufferSize_of_def interval_of_def)

theorem buffer_size_of_configuration_witness:
  "JUndefined \<notin> {JStr ''sec'', JStr ''min'', JStr ''hour''} \<and> secondsPerUnit JUndefined = 1
   \<and> falsy (cfg_interval window1) \<and> bufferSize_of window1 = Some 1
   \<and> \<not> falsy (cfg_interval window3) \<and> parseInt (cfg_interval window3) = Some 3
   \<and> bufferSize_of window3 = Some 3 \<and> spec_bufferSize window3 = 3
   \<and> (\<exists>s :: nat analyzer. new_MessageAnalyzer window3 = Inr s \<and> bufferSize s = 3)
   \<and> \<not> falsy (cfg_interval negative_interval)
   \<and> bufferSize_of negative_interval = Some (- 300)"
proof -
  have p3: "parseInt (cfg_interval window3) = Some 3" "\<not> falsy (cfg_interval window3)"
    by (simp_all add: window3_def parseInt_string_def is_ws_def digit_of_def)
  have pn: "parseInt (cfg_interval negative_interval) = Some (- 5)"
    "\<not> falsy (cfg_interval negative_interval)"
    "secondsPerUnit (cfg_frequency negative_interval) = 60"
    by (simp_all add: negative_interval_def parseInt_string_def is_ws_def digit_of_def
        secondsPerUnit_def)
  have p1: "falsy (cfg_interval window1)" "secondsPerUnit (cfg_frequency window1) = 1"
    by (simp_all add: window1_def secondsPerUnit_def)
  have s3: "secondsPerUnit (cfg_frequency window3) = 1"
    by (simp add: window3_def secondsPerUnit_def)
  from buffer_size_of_configuration [of JUndefined window1, where ?'m = nat] p1
  have a: "secondsPerUnit JUndefined = 1" "bufferSize_of window1 = Some 1" by simp_all
  note t3 = buffer_size_of_configuration [of JUndefined window3, where ?'m = nat]
  have ex: "\<exists>i. parseInt (cfg_interval window3) = Some i \<and> 0 < i" using p3 by simp
  from t3 p3 s3 have b1: "bufferSize_of window3 = Some 3" by simp
  from t3 ex have b2: "bufferSize_of window3 = Some (spec_bufferSize window3)" by blast
  from b1 b2 have sp: "spec_bufferSize window3 = 3" by simp
  from t3 ex have "\<exists>s :: nat analyzer. new_MessageAnalyzer window3 = Inr s
      \<and> bufferSize s = spec_bufferSize window3" by blast
  then have b3: "\<exists>s :: nat analyzer. new_MessageAnalyzer window3 = Inr s \<and> bufferSize s = 3"
    unfolding sp .
  from buffer_size_of_configuration [of JUndefined negative_interval, where ?'m = nat] pn
  have c: "bufferSize_of negative_interval = Some (- 300)" by simp
  show ?thesis using a b1 sp b3 c p1 p3 pn by simp
qed

subsection \<open>Evaluation of the examples\<close>

lemmas eval_defs =
  process_def analyse_def Let_def add_msg_def setInterval_def
  clearInterval_def timer_fires_def analyse_iteration_def originalCellContent_def
  store_second_def report_second_def reported_def update_status_def send_output_def
  cb_size_def cb_enq_def cb_get_def payload_def stop_def cancel_timer_def reset_def
  new_CircularBuffer_def pause_def resume_def


lemma window3_constructed:
  "(new_MessageAnalyzer window3 :: js_error + nat analyzer) =
     Inr \<lparr>frequency = JStr ''sec'', paused = False, estimationStartup = True,
        ignoreStartup = False, interval = 3, bufferSize = 3,
        circularBuffer = \<lparr>cb_capacity = 3, cb_items = []\<rparr>, newMsgCount = 0,
        newMsgStatistic = 0, prevStartup = False, prevTotalMsgCount = 0,
        prevMsgStatisticInBuffer = 0, msgCountInBuffer = 0,
        msgStatisticInBuffer = 0, startTime = None, endTime = None,
        timer = None, active_timers = [], next_timer = 0, calls = []\<rparr>"
  by (simp add: new_MessageAnalyzer_def bufferSize_of_def interval_of_def window3_def
      parseInt_string_def is_ws_def digit_of_def secondsPerUnit_def reset_def
      new_CircularBuffer_def)


subsection \<open>A message is counted once\<close>









subsection \<open>Status changes\<close>

text \<open>Without startup estimation the reported values are the raw sums, and the status
  hook is invoked exactly when the triple differs from the remembered one.\<close>

lemma status_deduplicated_without_estimation:
  assumes "analyse_iteration s = Inr s'" "estimationStartup s = False"
  shows "(ChangeStatus (msgCountInBuffer s') (msgStatisticInBuffer s') (prevStartup s')
            \<in> set (new_calls s s'))
       = ((msgCountInBuffer s', msgStatisticInBuffer s', prevStartup s')
            \<noteq> (prevTotalMsgCount s, prevMsgStatisticInBuffer s, prevStartup s))"
proof -
  from assms(1) obtain orig where s': "s' = report_second (store_second orig s)"
    by (auto simp: analyse_iteration_def split: sum.splits)
  let ?s2 = "store_second orig s"
  have r: "reported ?s2 =
      (msgCountInBuffer ?s2, msgStatisticInBuffer ?s2,
       cb_size (circularBuffer ?s2) < cb_capacity (circularBuffer ?s2))"
    using assms(2) by (simp add: reported_cases)
  show ?thesis
    unfolding s' new_calls_def report_second_calls [OF r] report_second_prev(1) [OF r]
    by auto
qed

text \<open>
  Claim C4 says that \<open>changeStatus\<close> is invoked in a flush iteration exactly when the
  reported triple (count, statistic, startup flag) differs from the triple of the previous
  invocation, so that identical consecutive reports fire only once. The comparison of the
  source is between the remembered reported values and the raw running sums. With startup
  estimation the two differ: the \<open>window3\<close> estimator, fed one message of statistic 0 in
  each of the first two seconds, reports \<open>(3, 0, startup)\<close> for both closed seconds and
  invokes \<open>changeStatus\<close> in both.
\<close>

theorem status_fired_on_unchanged_report:
  "\<exists>s0 s. new_MessageAnalyzer window3 = Inr s0
     \<and> run payload [Process 0 (Some 0), Process 1000 (Some 0), TimerFires 2000] s0 = Inr s
     \<and> calls s = [CalculateMsgStatistic 0, ChangeStatus 3 0 True, SendMsg 3 0,
                  CalculateMsgStatistic 0, ChangeStatus 3 0 True, SendMsg 3 0]"
  unfolding window3_constructed by (simp add: eval_defs)

text \<open>In the other direction, a changed report can go without a status change: here the
  second closed second reports the count 4 after the count 3, and \<open>changeStatus\<close> is not
  invoked.\<close>

lemma status_missed_on_changed_report:
  "\<exists>s0 s. new_MessageAnalyzer window3 = Inr s0
     \<and> run payload [Process 0 (Some 0), Process 1000 (Some 0), Process 1500 (Some 0),
                     TimerFires 2000] s0 = Inr s
     \<and> calls s = [CalculateMsgStatistic 0, ChangeStatus 3 0 True, SendMsg 3 0,
                  CalculateMsgStatistic 0, CalculateMsgStatistic 0, SendMsg 4 0]"
  unfolding window3_constructed by (simp add: eval_defs)

subsection \<open>The idle timer\<close>

text \<open>
  Claim C6 says that every flushing call of \<open>process\<close> re-arms an idle timer of 1000
  milliseconds. The timer that \<open>process\<close> arms has the period 60000: after the first
  message of the \<open>window3\<close> estimator the one live timer is \<open>(0, 60000)\<close>.
\<close>

theorem idle_timer_period:
  "\<exists>s0 s. new_MessageAnalyzer window3 = Inr s0
     \<and> process payload 0 (Some 5) s0 = Inr s
     \<and> timer s = Some 0 \<and> active_timers s = [(0, 60000)]"
  unfolding window3_constructed by (simp add: eval_defs)

text \<open>The rest of what the claim says holds: \<open>process\<close> cancels the timer it holds
  before it flushes and arms a new one afterwards, the callback is the flush without a
  message (\<open>timer_fires\<close>), and at most one timer is live in every reachable state.\<close>

lemma loop_timers:
  "analyse_loop n s = Inr s' \<Longrightarrow>
   timer s' = timer s \<and> active_timers s' = active_timers s \<and> next_timer s' = next_timer s"
proof (induction n arbitrary: s)
  case 0
  then show ?case by simp
next
  case (Suc n)
  from Suc.prems obtain u where u: "analyse_iteration s = Inr u" and l: "analyse_loop n u = Inr s'"
    by (auto split: sum.splits)
  from iteration_fields [OF u] Suc.IH [OF l] show ?case by auto
qed

lemma analyse_timers:
  "analyse stat now msg s = Inr s' \<Longrightarrow>
   timer s' = timer s \<and> active_timers s' = active_timers s \<and> next_timer s' = next_timer s"
  by (auto simp: analyse_def Let_def add_msg_def split: sum.splits option.splits
      dest!: loop_timers)

lemma process_arms_timer:
  assumes "\<not> paused s" "process stat now msg s = Inr s'"
  shows "timer s' = Some (next_timer s)"
    and "active_timers s' =
      (case timer s of None \<Rightarrow> active_timers s
       | Some h \<Rightarrow> filter (\<lambda>p. fst p \<noteq> h) (active_timers s)) @ [(next_timer s, 60000)]"
    and "next_timer s' = Suc (next_timer s)"
proof -
  let ?s1 = "case timer s of None \<Rightarrow> s | Some h \<Rightarrow> clearInterval h s"
  from assms obtain s2 where a: "analyse stat now msg ?s1 = Inr s2"
    and s': "s' = (snd (setInterval 60000 s2))\<lparr>timer := Some (fst (setInterval 60000 s2))\<rparr>"
    by (auto simp: process_def Let_def split: sum.splits prod.splits)
  from analyse_timers [OF a] have
    f: "active_timers s2 = active_timers ?s1" "next_timer s2 = next_timer ?s1" by auto
  show "timer s' = Some (next_timer s)"
    unfolding s' by (simp add: setInterval_def f clearInterval_def split: option.splits)
  show "active_timers s' =
      (case timer s of None \<Rightarrow> active_timers s
       | Some h \<Rightarrow> filter (\<lambda>p. fst p \<noteq> h) (active_timers s)) @ [(next_timer s, 60000)]"
    unfolding s' by (simp add: setInterval_def f clearInterval_def split: option.splits)
  show "next_timer s' = Suc (next_timer s)"
    unfolding s' by (simp add: setInterval_def f clearInterval_def split: option.splits)
qed

lemma process_timers_inv:
  assumes "timers_inv s" "process stat now msg s = Inr s'"
  shows "timers_inv s'"
proof (cases "paused s")
  case True
  with assms show ?thesis by (simp add: process_def)
next
  case False
  from process_arms_timer [OF False assms(2)] assms(1) show ?thesis
    by (auto simp: timers_inv_def split: option.splits)
qed

lemma cancel_timer_timers_inv: "timers_inv s \<Longrightarrow> timers_inv (cancel_timer s)"
  by (auto simp: timers_inv_def cancel_timer_def clearInterval_def split: option.splits)

lemma reset_timers_inv: "timers_inv s \<Longrightarrow> reset s = Inr s' \<Longrightarrow> timers_inv s'"
  using reset_fields(12,13,15) [of s s']
  by (auto simp: timers_inv_def split: option.splits)

lemma step_timers_inv:
  assumes "timers_inv s" "step stat e s = Inr s'"
  shows "timers_inv s'"
proof (cases e)
  case (Process now msg)
  with assms show ?thesis by (auto dest: process_timers_inv)
next
  case (TimerFires now)
  with assms show ?thesis
    by (auto simp: timer_fires_def timers_inv_def split: if_splits option.splits
        dest!: analyse_timers)
next
  case Pause
  from assms(1) have "timers_inv (cancel_timer (s\<lparr>paused := True\<rparr>))"
    by (intro cancel_timer_timers_inv) (simp add: timers_inv_def split: option.splits)
  with assms Pause show ?thesis by (auto simp: pause_def)
next
  case (Resume now)
  from assms(1) have "timers_inv (s\<lparr>paused := False, startTime := Some now\<rparr>)"
    by (simp add: timers_inv_def split: option.splits)
  with assms Resume show ?thesis
    by (auto simp: resume_def split: if_splits dest: process_timers_inv)
next
  case Stop
  with assms show ?thesis
    by (auto simp: stop_def dest: reset_timers_inv [OF cancel_timer_timers_inv])
next
  case Reset
  with assms show ?thesis by (auto dest: reset_timers_inv)
qed

lemma run_timers_inv: "timers_inv s \<Longrightarrow> run stat es s = Inr s' \<Longrightarrow> timers_inv s'"
  by (induction es arbitrary: s) (auto split: sum.splits dest: step_timers_inv)

lemma at_most_one_timer:
  assumes "new_MessageAnalyzer cfg = Inr s0" "run stat es s0 = Inr s"
  shows "length (active_timers s) \<le> 1"
proof -
  from assms(1) have "timers_inv s0"
    by (auto simp: new_MessageAnalyzer_def reset_def new_CircularBuffer_def timers_inv_def
        split: option.splits if_splits)
  from run_timers_inv [OF this assms(2)] show ?thesis
    by (auto simp: timers_inv_def split: option.splits)
qed

end
